theory Spec2Isabelle
  imports Main "HOL-Library.Sublist"
begin

section \<open>Data model of delete_tweets.py\<close>

text \<open>
  A tweet is the dictionary both item sources build: the keys \<open>id\<close>, \<open>text\<close> and
  \<open>created_at\<close> (the last one may be \<open>None\<close>). A ledger entry is the dictionary that
  \<open>delete_tweets\<close> appends to \<open>log\<close>. Strings are lists of characters; a character
  stands for a code point below 256.
\<close>

record tweet =
  tweet_id :: string
  tweet_text :: string
  created_at :: "string option"

record entry =
  entry_id :: string
  entry_text :: string
  entry_created_at :: "string option"
  deleted_at :: string

subsection \<open>The collaborators\<close>

text \<open>
  What \<open>client.delete_tweet\<close> does: it returns, or raises one of tweepy's exception
  classes. The except clauses of the source distinguish \<open>TooManyRequests\<close>, \<open>NotFound\<close>
  and \<open>Forbidden\<close>; every other exception is caught by \<open>except Exception\<close>. Each
  exception carries \<open>str(e)\<close>.
\<close>

datatype outcome =
    Deleted
  | TooManyRequests string
  | NotFound string
  | Forbidden string
  | OtherError string

text \<open>
  The environment of one run. \<open>input_line\<close> is what \<open>input(...)\<close> returns.
  \<open>int_of_str\<close> is the builtin \<open>int(tweet_id)\<close>: \<open>Inl m\<close> is a \<open>ValueError\<close> whose
  \<open>str\<close> is \<open>m\<close>. \<open>delete_tweet n k\<close> is the outcome of the call \<open>client.delete_tweet(k)\<close>
  when \<open>n\<close> calls have been made before it in this run. \<open>now n\<close> is
  \<open>datetime.now().isoformat()\<close> read after the \<open>n\<close>-th call (the source reads the clock
  at most once between two calls).
\<close>

record world =
  input_line :: string
  int_of_str :: "string \<Rightarrow> string + int"
  delete_tweet :: "nat \<Rightarrow> int \<Rightarrow> outcome"
  now :: "nat \<Rightarrow> string"

text \<open>
  The effects of a run, in the order they happen. \<open>LedgerProbe\<close> is \<open>log_path.exists()\<close>,
  \<open>LedgerRead\<close> is \<open>log_path.read_text()\<close>, \<open>LedgerWrite l\<close> is
  \<open>log_path.write_text(json.dumps(log, ...))\<close> with the in-memory \<open>log\<close> equal to \<open>l\<close>,
  \<open>LogAppend e\<close> is the in-memory mutation \<open>log.append(e)\<close>, \<open>DeleteCall k\<close> is a call
  \<open>client.delete_tweet(k)\<close> and \<open>Sleep n\<close> is \<open>time.sleep(n)\<close>.
\<close>

datatype event =
    Input
  | LedgerProbe
  | LedgerRead
  | LedgerWrite "entry list"
  | LogAppend entry
  | DeleteCall int
  | Sleep nat

text \<open>
  The lines \<open>delete_tweets\<close> prints, one constructor per \<open>print\<close> statement, with the
  values the f-string interpolates.
\<close>

datatype line =
    No_tweets
  | Rule
  | Dry_run_header nat
  | Preview nat "string option" string
  | And_more nat
  | Run_without_dry_run
  | Warning nat
  | Aborted
  | Skipping_confirmation
  | Skipping_already_deleted nat
  | All_already_deleted
  | Deleting_remaining nat
  | Deleted_line nat nat string
  | Rate_limited nat
  | No_credits_retry
  | Rerun_after_credits
  | Failed_after_retry nat nat string
  | Already_gone nat nat string
  | No_credits_or_cap
  | Rerun_after_credits_or_cap
  | Failed_line nat nat string
  | Approaching_limit nat
  | Done nat nat
  | Log_saved

text \<open>
  The state of a run: the local variables \<open>log\<close>, \<open>deleted\<close>, \<open>failed\<close> and
  \<open>batch_count\<close>, the content of the ledger file \<open>deleted_tweets_log.json\<close> (\<open>None\<close>
  when it does not exist), the effects so far, the console, the number of
  \<open>delete_tweet\<close> calls made, and whether the loop was left by \<open>break\<close>.
\<close>

record state =
  log :: "entry list"
  ledger_file :: "entry list option"
  trace :: "event list"
  console :: "line list"
  deleted :: nat
  failed :: nat
  batch_count :: nat
  calls :: nat
  stopped :: bool

section \<open>String operations of Python used by the source\<close>

definition is_space :: "char \<Rightarrow> bool" where
  "is_space c = (of_char c \<in> {9, 10, 11, 12, 13, 28, 29, 30, 31, 32, 133, 160 :: nat})"

definition py_strip :: "string \<Rightarrow> string" where
  "py_strip s = rev (dropWhile is_space (rev (dropWhile is_space s)))"

definition lower_char :: "char \<Rightarrow> char" where
  "lower_char c =
     (let n = (of_char c :: nat) in
      if (65 \<le> n \<and> n \<le> 90) \<or> (192 \<le> n \<and> n \<le> 222 \<and> n \<noteq> 215)
      then char_of (n + 32) else c)"

definition py_lower :: "string \<Rightarrow> string" where
  "py_lower s = map lower_char s"

fun py_in :: "string \<Rightarrow> string \<Rightarrow> bool" where
  "py_in sub [] = (sub = [])"
| "py_in sub (c # cs) = (if take (length sub) (c # cs) = sub then True else py_in sub cs)"

definition py_replace_char :: "char \<Rightarrow> string \<Rightarrow> string \<Rightarrow> string" where
  "py_replace_char a b s = concat (map (\<lambda>c. if c = a then b else [c]) s)"

section \<open>filter_tweets\<close>

text \<open>
  A \<open>datetime\<close> as the comparisons of the source see it: the wall-clock value and the
  offset of an aware value. Comparing a naive with an aware value raises \<open>TypeError\<close>.
  \<open>datetime.fromisoformat\<close> is a parameter (\<open>None\<close> is \<open>ValueError\<close>). The function
  returns the filtered list, or raises when a bound does not parse; the counts it
  prints per stage are left out.
\<close>

record pydatetime =
  wall :: int
  tzinfo :: "int option"

definition py_lt :: "pydatetime \<Rightarrow> pydatetime \<Rightarrow> bool option" where
  "py_lt a b =
     (case (tzinfo a, tzinfo b) of
        (None, None) \<Rightarrow> Some (wall a < wall b)
      | (Some oa, Some ob) \<Rightarrow> Some (wall a - oa < wall b - ob)
      | _ \<Rightarrow> None)"

definition parse_created :: "(string \<Rightarrow> pydatetime option) \<Rightarrow> string \<Rightarrow> pydatetime option" where
  "parse_created fromisoformat c = fromisoformat (py_replace_char CHR ''Z'' ''+00:00'' c)"

definition before_keeps :: "(string \<Rightarrow> pydatetime option) \<Rightarrow> pydatetime \<Rightarrow> tweet \<Rightarrow> bool" where
  "before_keeps fromisoformat before_dt t =
     (case created_at t of
        None \<Rightarrow> True
      | Some c \<Rightarrow>
          if c = [] then True
          else (case parse_created fromisoformat c of
                  None \<Rightarrow> True
                | Some tweet_date \<Rightarrow>
                    (case py_lt (tweet_date\<lparr>tzinfo := None\<rparr>) before_dt of
                       None \<Rightarrow> True
                     | Some b \<Rightarrow> b)))"

definition after_keeps :: "(string \<Rightarrow> pydatetime option) \<Rightarrow> pydatetime \<Rightarrow> tweet \<Rightarrow> bool" where
  "after_keeps fromisoformat after_dt t =
     (case created_at t of
        None \<Rightarrow> False
      | Some c \<Rightarrow>
          if c = [] then False
          else (case parse_created fromisoformat c of
                  None \<Rightarrow> False
                | Some tweet_date \<Rightarrow>
                    (case py_lt after_dt (tweet_date\<lparr>tzinfo := None\<rparr>) of
                       None \<Rightarrow> False
                     | Some b \<Rightarrow> b)))"

datatype py_error = ValueError

definition truthy :: "string option \<Rightarrow> bool" where
  "truthy a = (case a of None \<Rightarrow> False | Some s \<Rightarrow> s \<noteq> [])"

definition before_stage ::
  "(string \<Rightarrow> pydatetime option) \<Rightarrow> string option \<Rightarrow> tweet list \<Rightarrow> py_error + tweet list" where
  "before_stage fromisoformat before_date filtered =
     (if truthy before_date then
        (case fromisoformat (the before_date) of
           None \<Rightarrow> Inl ValueError
         | Some before_dt \<Rightarrow> Inr (filter (before_keeps fromisoformat before_dt) filtered))
      else Inr filtered)"

definition after_stage ::
  "(string \<Rightarrow> pydatetime option) \<Rightarrow> string option \<Rightarrow> tweet list \<Rightarrow> py_error + tweet list" where
  "after_stage fromisoformat after_date filtered =
     (if truthy after_date then
        (case fromisoformat (the after_date) of
           None \<Rightarrow> Inl ValueError
         | Some after_dt \<Rightarrow> Inr (filter (after_keeps fromisoformat after_dt) filtered))
      else Inr filtered)"

definition contains_stage :: "string option \<Rightarrow> tweet list \<Rightarrow> tweet list" where
  "contains_stage contains filtered =
     (if truthy contains
      then filter (\<lambda>t. py_in (py_lower (the contains)) (py_lower (tweet_text t))) filtered
      else filtered)"

definition exclude_stage :: "string option \<Rightarrow> tweet list \<Rightarrow> tweet list" where
  "exclude_stage exclude_contains filtered =
     (if truthy exclude_contains
      then filter (\<lambda>t. \<not> py_in (py_lower (the exclude_contains)) (py_lower (tweet_text t))) filtered
      else filtered)"

definition filter_tweets ::
  "(string \<Rightarrow> pydatetime option) \<Rightarrow> tweet list \<Rightarrow> string option \<Rightarrow> string option \<Rightarrow>
   string option \<Rightarrow> string option \<Rightarrow> py_error + tweet list" where
  "filter_tweets fromisoformat tweets before_date after_date contains exclude_contains =
     (case before_stage fromisoformat before_date tweets of
        Inl e \<Rightarrow> Inl e
      | Inr f1 \<Rightarrow>
          (case after_stage fromisoformat after_date f1 of
             Inl e \<Rightarrow> Inl e
           | Inr f2 \<Rightarrow> Inr (exclude_stage exclude_contains (contains_stage contains f2))))"

section \<open>delete_tweets\<close>

definition RATE_LIMIT_DELETES :: nat where
  "RATE_LIMIT_DELETES = 50"

definition RATE_LIMIT_WINDOW :: nat where
  "RATE_LIMIT_WINDOW = 15 * 60"

subsection \<open>Primitive effects\<close>

definition emit :: "line \<Rightarrow> state \<Rightarrow> state" where
  "emit l s = s\<lparr>console := console s @ [l]\<rparr>"

definition effect :: "event \<Rightarrow> state \<Rightarrow> state" where
  "effect e s = s\<lparr>trace := trace s @ [e]\<rparr>"

definition write_log :: "state \<Rightarrow> state" where
  "write_log s = effect (LedgerWrite (log s)) (s\<lparr>ledger_file := Some (log s)\<rparr>)"

definition time_sleep :: "nat \<Rightarrow> state \<Rightarrow> state" where
  "time_sleep n s = effect (Sleep n) s"

definition preview :: "nat \<Rightarrow> string \<Rightarrow> string" where
  "preview n s = map (\<lambda>c. if c = CHR 0x0A then CHR '' '' else c) (take n s)"

text \<open>
  The expression \<open>client.delete_tweet(int(tweet_id))\<close>: when \<open>int\<close> raises, no call is
  made and the \<open>ValueError\<close> reaches \<open>except Exception\<close>.
\<close>

definition attempt :: "world \<Rightarrow> tweet \<Rightarrow> state \<Rightarrow> outcome \<times> state" where
  "attempt w t s =
     (case int_of_str w (tweet_id t) of
        Inl m \<Rightarrow> (OtherError m, s)
      | Inr k \<Rightarrow> (delete_tweet w (calls s) k, effect (DeleteCall k) (s\<lparr>calls := calls s + 1\<rparr>)))"

text \<open>Lines 280-287 and 299-306: the counters and the new ledger entry after a call that returned.\<close>

definition new_entry :: "world \<Rightarrow> tweet \<Rightarrow> state \<Rightarrow> entry" where
  "new_entry w t s =
     \<lparr>entry_id = tweet_id t, entry_text = tweet_text t, entry_created_at = created_at t,
      deleted_at = now w (calls s)\<rparr>"

definition record_success :: "world \<Rightarrow> tweet \<Rightarrow> state \<Rightarrow> state" where
  "record_success w t s =
     effect (LogAppend (new_entry w t s))
       (s\<lparr>deleted := deleted s + 1, batch_count := batch_count s + 1,
          log := log s @ [new_entry w t s]\<rparr>)"

definition record_failure :: "line \<Rightarrow> state \<Rightarrow> state" where
  "record_failure l s = emit l (s\<lparr>failed := failed s + 1\<rparr>)"

subsection \<open>The exhaustion heuristics\<close>

text \<open>Line 325 (\<open>except Forbidden\<close>) and line 335 (\<open>except Exception\<close>) of the first attempt.\<close>

definition exhausted :: "string \<Rightarrow> bool" where
  "exhausted error_str =
     (py_in ''402'' error_str \<or> py_in ''credits'' (py_lower error_str) \<or>
      py_in ''Payment Required'' error_str \<or> py_in ''spend cap'' (py_lower error_str))"

text \<open>Line 308 (\<open>except Forbidden\<close> of the retry).\<close>

definition exhausted_retry :: "string \<Rightarrow> bool" where
  "exhausted_retry error_str = (py_in ''402'' error_str \<or> py_in ''credits'' (py_lower error_str))"

definition abort_first :: "state \<Rightarrow> state" where
  "abort_first s =
     (write_log (emit Rerun_after_credits_or_cap (emit No_credits_or_cap s)))\<lparr>stopped := True\<rparr>"

definition abort_retry :: "state \<Rightarrow> state" where
  "abort_retry s =
     (write_log (emit Rerun_after_credits (emit No_credits_retry s)))\<lparr>stopped := True\<rparr>"

subsection \<open>The loop body\<close>

text \<open>Lines 291-317: the handler of \<open>TooManyRequests\<close>.\<close>

definition retry :: "world \<Rightarrow> nat \<Rightarrow> nat \<Rightarrow> tweet \<Rightarrow> state \<Rightarrow> state" where
  "retry w total_n i t s =
     (let s1 = (time_sleep (RATE_LIMIT_WINDOW + 5)
                 (write_log (emit (Rate_limited RATE_LIMIT_WINDOW) s)))\<lparr>batch_count := 0\<rparr>
      in case attempt w t s1 of
           (Deleted, s2) \<Rightarrow> record_success w t s2
         | (Forbidden e, s2) \<Rightarrow>
             if exhausted_retry e then abort_retry s2
             else record_failure (Failed_after_retry i total_n e) s2
         | (TooManyRequests e, s2) \<Rightarrow> record_failure (Failed_after_retry i total_n e) s2
         | (NotFound e, s2) \<Rightarrow> record_failure (Failed_after_retry i total_n e) s2
         | (OtherError e, s2) \<Rightarrow> record_failure (Failed_after_retry i total_n e) s2)"

text \<open>Lines 277-341: the \<open>try\<close> statement of one iteration.\<close>

definition try_delete :: "world \<Rightarrow> nat \<Rightarrow> nat \<Rightarrow> tweet \<Rightarrow> state \<Rightarrow> state" where
  "try_delete w total_n i t s =
     (case attempt w t s of
        (Deleted, s1) \<Rightarrow>
          emit (Deleted_line i total_n (preview 60 (tweet_text t))) (record_success w t s1)
      | (TooManyRequests e, s1) \<Rightarrow> retry w total_n i t s1
      | (NotFound e, s1) \<Rightarrow>
          (emit (Already_gone i total_n (tweet_id t)) s1)\<lparr>deleted := deleted s1 + 1\<rparr>
      | (Forbidden e, s1) \<Rightarrow>
          if exhausted e then abort_first s1 else record_failure (Failed_line i total_n e) s1
      | (OtherError e, s1) \<Rightarrow>
          if exhausted e then abort_first s1 else record_failure (Failed_line i total_n e) s1)"

text \<open>Lines 343-348: the proactive pause.\<close>

definition proactive_pause :: "state \<Rightarrow> state" where
  "proactive_pause s =
     (if batch_count s \<ge> RATE_LIMIT_DELETES - 2
      then (time_sleep (RATE_LIMIT_WINDOW + 5)
             (write_log (emit (Approaching_limit RATE_LIMIT_WINDOW) s)))\<lparr>batch_count := 0\<rparr>
      else s)"

definition process_tweet :: "world \<Rightarrow> nat \<Rightarrow> nat \<Rightarrow> tweet \<Rightarrow> state \<Rightarrow> state" where
  "process_tweet w total_n i t s =
     (let s1 = try_delete w total_n i t s in
      if stopped s1 then s1 else proactive_pause s1)"

text \<open>Line 276: \<open>for i, tweet in enumerate(remaining, 1)\<close>; \<open>break\<close> leaves the loop.\<close>

fun delete_loop :: "world \<Rightarrow> nat \<Rightarrow> nat \<Rightarrow> tweet list \<Rightarrow> state \<Rightarrow> state" where
  "delete_loop w total_n i [] s = s"
| "delete_loop w total_n i (t # ts) s =
     (let s1 = process_tweet w total_n i t s in
      if stopped s1 then s1 else delete_loop w total_n (i + 1) ts s1)"

subsection \<open>The function\<close>

definition init :: "entry list option \<Rightarrow> state" where
  "init fs = \<lparr>log = [], ledger_file = fs, trace = [], console = [], deleted = 0, failed = 0,
              batch_count = 0, calls = 0, stopped = False\<rparr>"

text \<open>Lines 228-238.\<close>

definition dry_run_report :: "tweet list \<Rightarrow> line list" where
  "dry_run_report tweets =
     [Rule, Dry_run_header (length tweets), Rule] @
     map (\<lambda>(i, t). Preview i (created_at t) (preview 80 (tweet_text t)))
         (zip [1 ..< Suc (length (take 20 tweets))] (take 20 tweets)) @
     (if length tweets > 20 then [And_more (length tweets - 20)] else []) @
     [Run_without_dry_run]"

text \<open>Lines 253-259.\<close>

definition load_log :: "state \<Rightarrow> state" where
  "load_log s =
     (case ledger_file s of
        None \<Rightarrow> effect LedgerProbe s
      | Some l \<Rightarrow> effect LedgerRead (effect LedgerProbe s)\<lparr>log := l\<rparr>)"

text \<open>Line 262.\<close>

definition remaining_of :: "tweet list \<Rightarrow> state \<Rightarrow> tweet list" where
  "remaining_of tweets s = filter (\<lambda>t. tweet_id t \<notin> set (map entry_id (log s))) tweets"

text \<open>Lines 350-356.\<close>

definition finish :: "state \<Rightarrow> state" where
  "finish s = emit Rule (emit Log_saved (emit (Done (deleted s) (failed s)) (emit Rule (write_log s))))"

text \<open>Lines 261-356, after the ledger has been loaded.\<close>

definition delete_remaining :: "world \<Rightarrow> tweet list \<Rightarrow> state \<Rightarrow> state" where
  "delete_remaining w tweets s =
     (let remaining = remaining_of tweets s;
          skipped = length tweets - length remaining;
          s1 = (if skipped > 0 then emit (Skipping_already_deleted skipped) s else s);
          total_n = length remaining
      in if total_n = 0 then emit All_already_deleted s1
         else finish (delete_loop w total_n 1 remaining (emit (Deleting_remaining total_n) s1)))"

text \<open>Lines 240-250.\<close>

definition confirmed :: "world \<Rightarrow> bool" where
  "confirmed w = (py_strip (input_line w) = ''DELETE'')"

definition delete_tweets :: "world \<Rightarrow> entry list option \<Rightarrow> tweet list \<Rightarrow> bool \<Rightarrow> bool \<Rightarrow> state" where
  "delete_tweets w fs tweets dry_run skip_confirm =
     (let s0 = init fs; total_n = length tweets in
      if total_n = 0 then emit No_tweets s0
      else if dry_run then s0\<lparr>console := dry_run_report tweets\<rparr>
      else
        (let s1 = emit Rule (emit (Warning total_n) (emit Rule s0)) in
         if \<not> skip_confirm then
           (let s2 = effect Input s1 in
            if \<not> confirmed w then emit Aborted s2
            else delete_remaining w tweets (load_log s2))
         else delete_remaining w tweets (load_log (emit Skipping_confirmation s1))))"

section \<open>Observations on a run\<close>

definition ledger_entries :: "entry list option \<Rightarrow> entry list" where
  "ledger_entries fs = (case fs of None \<Rightarrow> [] | Some l \<Rightarrow> l)"

definition ledger_ids :: "entry list option \<Rightarrow> string list" where
  "ledger_ids fs = map entry_id (ledger_entries fs)"

fun is_call :: "event \<Rightarrow> bool" where
  "is_call (DeleteCall k) = True"
| "is_call e = False"

fun touches_ledger :: "event \<Rightarrow> bool" where
  "touches_ledger LedgerProbe = True"
| "touches_ledger LedgerRead = True"
| "touches_ledger (LedgerWrite l) = True"
| "touches_ledger e = False"

fun is_preview :: "line \<Rightarrow> bool" where
  "is_preview (Preview i c p) = True"
| "is_preview l = False"

text \<open>The entries appended in memory by the events of a trace: one per call that returned.\<close>

fun appended :: "event list \<Rightarrow> entry list" where
  "appended [] = []"
| "appended (LogAppend e # es) = e # appended es"
| "appended (x # es) = appended es"

subsection \<open>The head of the loop and the end of the process\<close>

text \<open>
  The state in which line 276 starts the loop when the run is not a dry run: lines
  240-275 on the way through the confirmation (or its skip), the load of the ledger
  and the two optional console lines.
\<close>

definition loop_start :: "world \<Rightarrow> entry list option \<Rightarrow> tweet list \<Rightarrow> bool \<Rightarrow> state" where
  "loop_start w fs tweets skip_confirm =
     (let s1 = emit Rule (emit (Warning (length tweets)) (emit Rule (init fs)));
          s2 = load_log (if skip_confirm then emit Skipping_confirmation s1 else effect Input s1);
          remaining = remaining_of tweets s2;
          skipped = length tweets - length remaining
      in emit (Deleting_remaining (length remaining))
           (if skipped > 0 then emit (Skipping_already_deleted skipped) s2 else s2))"


subsection \<open>Durability along a trace\<close>

text \<open>
  A trace is replayed against the ledger file: \<open>mem\<close> is the in-memory log, \<open>disk\<close> the
  file, \<open>loaded\<close> whether the file has been probed and, when it exists, read. Every write
  must store the whole in-memory log, every call must come after the load, and every
  sleep must start with the file equal to the in-memory log. With \<open>strict\<close>, every call
  must start that way too: each success is on disk before the next call.
\<close>

record ghost =
  loaded :: bool
  mem :: "entry list"
  disk :: "entry list option"

fun durable_step :: "bool \<Rightarrow> ghost \<Rightarrow> event \<Rightarrow> ghost option" where
  "durable_step strict g Input = Some g"
| "durable_step strict g LedgerProbe = Some (if disk g = None then g\<lparr>loaded := True\<rparr> else g)"
| "durable_step strict g LedgerRead =
     (case disk g of None \<Rightarrow> None | Some l \<Rightarrow> Some (g\<lparr>loaded := True, mem := l\<rparr>))"
| "durable_step strict g (LedgerWrite l) = (if l = mem g then Some (g\<lparr>disk := Some l\<rparr>) else None)"
| "durable_step strict g (LogAppend e) = Some (g\<lparr>mem := mem g @ [e]\<rparr>)"
| "durable_step strict g (DeleteCall k) =
     (if loaded g \<and> (if strict then ledger_entries (disk g) = mem g else True) then Some g else None)"
| "durable_step strict g (Sleep n) = (if disk g = Some (mem g) then Some g else None)"

fun durable_replay :: "bool \<Rightarrow> ghost \<Rightarrow> event list \<Rightarrow> ghost option" where
  "durable_replay strict g [] = Some g"
| "durable_replay strict g (e # es) =
     (case durable_step strict g e of None \<Rightarrow> None | Some g1 \<Rightarrow> durable_replay strict g1 es)"

definition durable_trace :: "bool \<Rightarrow> entry list option \<Rightarrow> event list \<Rightarrow> bool" where
  "durable_trace strict fs es =
     (case durable_replay strict \<lparr>loaded = False, mem = [], disk = fs\<rparr> es of
        None \<Rightarrow> False
      | Some g \<Rightarrow> if loaded g then ledger_entries (disk g) = mem g else True)"

subsection \<open>Pacing along a trace\<close>

text \<open>
  A counter since the last sleep and whether the last event was a write of the ledger.
  With \<open>by_calls\<close> the counter counts \<open>delete_tweet\<close> calls, otherwise it counts the
  entries appended (the calls that returned). A call is allowed only while the counter
  is below \<open>RATE_LIMIT_DELETES - 2\<close>; a sleep must last \<open>RATE_LIMIT_WINDOW + 5\<close>, follow a
  write of the ledger, and resets the counter; at the end the counter is below the bound.
\<close>

fun paced_step :: "bool \<Rightarrow> nat \<times> bool \<Rightarrow> event \<Rightarrow> (nat \<times> bool) option" where
  "paced_step by_calls (c, wr) (DeleteCall k) =
     (if c < RATE_LIMIT_DELETES - 2 then Some (if by_calls then c + 1 else c, False) else None)"
| "paced_step by_calls (c, wr) (LogAppend e) = Some (if by_calls then c else c + 1, False)"
| "paced_step by_calls (c, wr) (Sleep n) =
     (if n = RATE_LIMIT_WINDOW + 5 \<and> wr then Some (0, False) else None)"
| "paced_step by_calls (c, wr) (LedgerWrite l) = Some (c, True)"
| "paced_step by_calls (c, wr) e = Some (c, False)"

fun paced_replay :: "bool \<Rightarrow> nat \<times> bool \<Rightarrow> event list \<Rightarrow> (nat \<times> bool) option" where
  "paced_replay by_calls p [] = Some p"
| "paced_replay by_calls p (e # es) =
     (case paced_step by_calls p e of None \<Rightarrow> None | Some p1 \<Rightarrow> paced_replay by_calls p1 es)"

definition paced_trace :: "bool \<Rightarrow> event list \<Rightarrow> bool" where
  "paced_trace by_calls es =
     (case paced_replay by_calls (0, False) es of
        None \<Rightarrow> False
      | Some (c, wr) \<Rightarrow> c < RATE_LIMIT_DELETES - 2)"

section \<open>Sample environments\<close>

text \<open>
  \<open>int\<close> on a non-empty string of ASCII digits; the samples below use it on such strings
  only (Python accepts more: a sign, surrounding whitespace, underscores).
\<close>

definition sample_int :: "string \<Rightarrow> string + int" where
  "sample_int s =
     (if s \<noteq> [] \<and> list_all (\<lambda>c. 48 \<le> (of_char c :: nat) \<and> (of_char c :: nat) \<le> 57) s
      then Inr (foldl (\<lambda>a c. 10 * a + (of_char c - 48)) 0 s)
      else Inl (''invalid literal for int() with base 10: '' @ [CHR 0x27] @ s @ [CHR 0x27]))"

definition sample_world :: "string \<Rightarrow> (nat \<Rightarrow> int \<Rightarrow> outcome) \<Rightarrow> world" where
  "sample_world typed api =
     \<lparr>input_line = typed, int_of_str = sample_int, delete_tweet = api,
      now = (\<lambda>n. ''2026-01-01T00:00:00'')\<rparr>"

definition sample_tweet :: "string \<Rightarrow> string \<Rightarrow> tweet" where
  "sample_tweet i txt = \<lparr>tweet_id = i, tweet_text = txt, created_at = None\<rparr>"

text \<open>
  \<open>datetime.fromisoformat\<close> on the one date the samples pass as a bound; it raises on
  the other strings the samples use (the archive's \<open>created_at\<close> format).
\<close>

definition sample_fromisoformat :: "string \<Rightarrow> pydatetime option" where
  "sample_fromisoformat s =
     (if s = ''2018-01-01'' then Some \<lparr>wall = 0, tzinfo = None\<rparr> else None)"

text \<open>Forty-nine candidates with the ids 1001 to 1049.\<close>

definition forty_nine :: "tweet list" where
  "forty_nine = map (\<lambda>i. sample_tweet i ''a'') [''1001'', ''1002'', ''1003'', ''1004'', ''1005'', ''1006'', ''1007'',
      ''1008'', ''1009'', ''1010'', ''1011'', ''1012'', ''1013'', ''1014'',
      ''1015'', ''1016'', ''1017'', ''1018'', ''1019'', ''1020'', ''1021'',
      ''1022'', ''1023'', ''1024'', ''1025'', ''1026'', ''1027'', ''1028'',
      ''1029'', ''1030'', ''1031'', ''1032'', ''1033'', ''1034'', ''1035'',
      ''1036'', ''1037'', ''1038'', ''1039'', ''1040'', ''1041'', ''1042'',
      ''1043'', ''1044'', ''1045'', ''1046'', ''1047'', ''1048'', ''1049'']"

section \<open>Invariants of the loop\<close>

text \<open>
  The replay of the trace so far ends in the state's own \<open>log\<close> and ledger file
  (\<open>durable_inv\<close>), and in the state's own \<open>batch_count\<close> (\<open>paced_inv\<close>).
\<close>

definition durable_inv :: "entry list option \<Rightarrow> bool \<Rightarrow> state \<Rightarrow> bool" where
  "durable_inv fs ld s =
     (durable_replay False \<lparr>loaded = False, mem = [], disk = fs\<rparr> (trace s) =
        Some \<lparr>loaded = ld, mem = log s, disk = ledger_file s\<rparr>)"

definition paced_inv :: "state \<Rightarrow> bool" where
  "paced_inv s = (map_option fst (paced_replay False (0, False) (trace s)) = Some (batch_count s))"

section \<open>Unfolding rules and lemmas on the loop\<close>

lemmas prim_defs = emit_def effect_def write_log_def time_sleep_def record_success_def
  record_failure_def abort_first_def abort_retry_def

lemmas body_defs = process_tweet_def try_delete_def retry_def attempt_def proactive_pause_def

lemma filter_preview_map:
  "filter is_preview (map (\<lambda>(i, t). Preview i (created_at t) (preview 80 (tweet_text t))) xs) =
   map (\<lambda>(i, t). Preview i (created_at t) (preview 80 (tweet_text t))) xs"
  by (induction xs) auto

lemmas run_defs = delete_tweets_def init_def Let_def load_log_def delete_remaining_def
  remaining_of_def finish_def body_defs prim_defs new_entry_def preview_def
  RATE_LIMIT_DELETES_def RATE_LIMIT_WINDOW_def confirmed_def py_strip_def is_space_def

lemmas sample_defs = sample_world_def sample_tweet_def sample_int_def

text \<open>A loop over \<open>xs @ ys\<close> that is not left by \<open>break\<close> within \<open>xs\<close> goes on with \<open>ys\<close>.\<close>

lemma delete_loop_append:
  "\<not> stopped (delete_loop w total_n i xs s) \<Longrightarrow>
   delete_loop w total_n i (xs @ ys) s =
   delete_loop w total_n (i + length xs) ys (delete_loop w total_n i xs s)"
proof (induction xs arbitrary: i s)
  case Nil
  then show ?case by simp
next
  case (Cons x xs)
  then show ?case by (simp add: Let_def split: if_splits)
qed

text \<open>At the head of the loop \<open>batch_count\<close> is below the bound of the proactive pause.\<close>

lemma batch_process:
  "\<not> stopped s \<Longrightarrow> batch_count s < RATE_LIMIT_DELETES - 2 \<Longrightarrow>
   batch_count (process_tweet w total_n i t s) < RATE_LIMIT_DELETES - 2"
  unfolding body_defs prim_defs
  by (auto simp: Let_def RATE_LIMIT_DELETES_def split: sum.splits outcome.splits prod.splits)

lemma batch_loop:
  "\<not> stopped s \<Longrightarrow> batch_count s < RATE_LIMIT_DELETES - 2 \<Longrightarrow>
   batch_count (delete_loop w total_n i ts s) < RATE_LIMIT_DELETES - 2"
proof (induction ts arbitrary: i s)
  case Nil
  then show ?case by simp
next
  case (Cons t ts)
  then show ?case by (simp add: Let_def batch_process)
qed




text \<open>What \<open>emit\<close> and \<open>load_log\<close> leave alone, and the paths through \<open>delete_tweets\<close>.\<close>

lemma trace_emit: "trace (emit l s) = trace s"
  by (simp add: emit_def)

lemma emit_sel:
  "log (emit l s) = log s" "ledger_file (emit l s) = ledger_file s"
  "stopped (emit l s) = stopped s" "batch_count (emit l s) = batch_count s"
  "calls (emit l s) = calls s"
  by (simp_all add: emit_def)

lemma load_log_sel:
  "log s = [] \<Longrightarrow> log (load_log s) = ledger_entries (ledger_file s)"
  "ledger_file (load_log s) = ledger_file s"
  "stopped (load_log s) = stopped s"
  "batch_count (load_log s) = batch_count s"
  "calls (load_log s) = calls s"
  by (simp_all add: load_log_def effect_def ledger_entries_def split: option.splits)

lemma delete_tweets_cases:
  assumes "P (emit No_tweets (init fs))"
    and "P ((init fs)\<lparr>console := dry_run_report tweets\<rparr>)"
    and "P (emit Aborted (effect Input (emit Rule (emit (Warning (length tweets)) (emit Rule (init fs))))))"
    and "P (delete_remaining w tweets
             (load_log (effect Input (emit Rule (emit (Warning (length tweets)) (emit Rule (init fs)))))))"
    and "P (delete_remaining w tweets
             (load_log (emit Skipping_confirmation
                (emit Rule (emit (Warning (length tweets)) (emit Rule (init fs)))))))"
  shows "P (delete_tweets w fs tweets dry_run skip_confirm)"
  using assms by (simp add: delete_tweets_def Let_def)

lemma start_sel:
  "log (emit Skipping_confirmation (emit Rule (emit (Warning n) (emit Rule (init fs))))) = []"
  "ledger_file (emit Skipping_confirmation (emit Rule (emit (Warning n) (emit Rule (init fs))))) = fs"
  "trace (emit Skipping_confirmation (emit Rule (emit (Warning n) (emit Rule (init fs))))) = []"
  "calls (emit Skipping_confirmation (emit Rule (emit (Warning n) (emit Rule (init fs))))) = 0"
  "log (effect Input (emit Rule (emit (Warning n) (emit Rule (init fs))))) = []"
  "ledger_file (effect Input (emit Rule (emit (Warning n) (emit Rule (init fs))))) = fs"
  "trace (effect Input (emit Rule (emit (Warning n) (emit Rule (init fs))))) = [Input]"
  "calls (effect Input (emit Rule (emit (Warning n) (emit Rule (init fs))))) = 0"
  by (simp_all add: emit_def effect_def init_def)

section \<open>The dry run\<close>

text \<open>
  C9. For a non-empty candidate list, \<open>delete_tweets\<close> with \<open>dry_run\<close> set returns the
  initial state with only the console changed: no effect at all is performed (no
  \<open>delete_tweet\<close> call, no probe, read or write of the ledger file, no sleep), the ledger
  file and the pacing counter are untouched, and the console holds the report of lines
  228-238: the header with the count, one preview line for each of the first 20
  tweets, numbered from 1, and no other preview line, at most 25 lines in all.
\<close>

theorem dry_run_frame:
  assumes "tweets \<noteq> []"
  shows "delete_tweets w fs tweets True skip_confirm =
           (init fs)\<lparr>console := dry_run_report tweets\<rparr>
         \<and> trace (delete_tweets w fs tweets True skip_confirm) = []
         \<and> ledger_file (delete_tweets w fs tweets True skip_confirm) = fs
         \<and> batch_count (delete_tweets w fs tweets True skip_confirm) = 0
         \<and> calls (delete_tweets w fs tweets True skip_confirm) = 0
         \<and> filter is_preview (dry_run_report tweets) =
             map (\<lambda>(i, t). Preview i (created_at t) (preview 80 (tweet_text t)))
               (zip [1 ..< Suc (length (take 20 tweets))] (take 20 tweets))
         \<and> length (filter is_preview (dry_run_report tweets)) = min 20 (length tweets)
         \<and> length (dry_run_report tweets) \<le> 25"
proof -
  have run: "delete_tweets w fs tweets True skip_confirm = (init fs)\<lparr>console := dry_run_report tweets\<rparr>"
    using assms by (simp add: delete_tweets_def Let_def)
  have p: "filter is_preview (dry_run_report tweets) =
             map (\<lambda>(i, t). Preview i (created_at t) (preview 80 (tweet_text t)))
               (zip [1 ..< Suc (length (take 20 tweets))] (take 20 tweets))"
    unfolding dry_run_report_def by (simp add: filter_preview_map Suc_le_eq)
  have n: "length (filter is_preview (dry_run_report tweets)) = min 20 (length tweets)"
    unfolding p by (simp add: Suc_le_eq min.commute)
  have m: "length (dry_run_report tweets) \<le> 25"
    by (auto simp add: dry_run_report_def)
  show ?thesis
    unfolding run using p n m by (simp add: init_def)
qed

theorem dry_run_frame_witness:
  "[sample_tweet ''1'' ''hello''] \<noteq> []
   \<and> trace (delete_tweets (sample_world ''x'' (\<lambda>n k. Deleted)) None
         [sample_tweet ''1'' ''hello''] True False) = []
   \<and> console (delete_tweets (sample_world ''x'' (\<lambda>n k. Deleted)) None
         [sample_tweet ''1'' ''hello''] True False)
       = [Rule, Dry_run_header 1, Rule, Preview 1 None ''hello'', Run_without_dry_run]"
  using dry_run_frame [of "[sample_tweet ''1'' ''hello'']" "sample_world ''x'' (\<lambda>n k. Deleted)" None False]
  by (simp add: dry_run_report_def sample_tweet_def preview_def init_def)

section \<open>The date stages of filter_tweets\<close>

text \<open>
  The before-date stage keeps a tweet whose \<open>created_at\<close> is \<open>None\<close> or does not parse;
  the after-date stage drops it.
\<close>

lemma before_keeps_undated:
  "created_at t = None \<or> parse_created f (the (created_at t)) = None \<Longrightarrow> before_keeps f d t"
  by (auto simp: before_keeps_def split: option.splits)

lemma after_keeps_undated:
  "created_at t = None \<or> parse_created f (the (created_at t)) = None \<Longrightarrow> \<not> after_keeps f d t"
  by (auto simp: after_keeps_def split: option.splits)

text \<open>
  C2. The claim asks both date stages to keep a tweet whose \<open>created_at\<close> is missing or
  unparsable. Lines 176-191 do, lines 193-206 do not: there the \<open>if\<close> has no \<open>else\<close> and
  the handler is \<open>pass\<close>. On a tweet without date and a tweet with the archive's date
  format, \<open>--after 2018-01-01\<close> returns the empty list, while \<open>--before 2018-01-01\<close>
  returns both.
\<close>

theorem after_stage_drops_undated:
  "filter_tweets sample_fromisoformat
     [\<lparr>tweet_id = ''1'', tweet_text = ''a'', created_at = None\<rparr>,
      \<lparr>tweet_id = ''2'', tweet_text = ''b'', created_at = Some ''Wed Oct 10 20:19:24 +0000 2018''\<rparr>]
     None (Some ''2018-01-01'') None None = Inr []
   \<and> filter_tweets sample_fromisoformat
     [\<lparr>tweet_id = ''1'', tweet_text = ''a'', created_at = None\<rparr>,
      \<lparr>tweet_id = ''2'', tweet_text = ''b'', created_at = Some ''Wed Oct 10 20:19:24 +0000 2018''\<rparr>]
     (Some ''2018-01-01'') None None None =
     Inr [\<lparr>tweet_id = ''1'', tweet_text = ''a'', created_at = None\<rparr>,
      \<lparr>tweet_id = ''2'', tweet_text = ''b'', created_at = Some ''Wed Oct 10 20:19:24 +0000 2018''\<rparr>]"
  by (simp add: filter_tweets_def before_stage_def after_stage_def contains_stage_def
      exclude_stage_def truthy_def sample_fromisoformat_def before_keeps_def after_keeps_def
      parse_created_def py_replace_char_def)

section \<open>The confirmation gate\<close>

text \<open>
  C3 as stated: with \<open>dry_run\<close> and \<open>skip_confirm\<close> false, a call is made only if the
  line typed is exactly \<open>DELETE\<close>. Line 245 strips the line first, so \<open>DELETE\<close> with a
  leading blank passes the gate and the tweet is deleted.
\<close>

theorem confirmation_gate_counterexample:
  "input_line (sample_world '' DELETE'' (\<lambda>n k. Deleted)) \<noteq> ''DELETE''
   \<and> filter is_call (trace (delete_tweets (sample_world '' DELETE'' (\<lambda>n k. Deleted)) None
        [sample_tweet ''1'' ''hello''] False False)) = [DeleteCall 1]"
  by (simp add: delete_tweets_def init_def Let_def confirmed_def sample_world_def py_strip_def
      is_space_def load_log_def delete_remaining_def remaining_of_def finish_def sample_tweet_def
      sample_int_def body_defs prim_defs RATE_LIMIT_DELETES_def)

text \<open>
  C3, amended. With \<open>dry_run\<close> and \<open>skip_confirm\<close> false, whenever the line typed,
  stripped of leading and trailing whitespace, differs from \<open>DELETE\<close>, the run makes no
  \<open>delete_tweet\<close> call, neither probes, reads nor writes the ledger file, leaves it as
  it was, and prints \<open>Aborted\<close> (or that there is nothing to delete).
\<close>

theorem confirmation_gate:
  assumes "\<not> confirmed w"
  shows "filter is_call (trace (delete_tweets w fs tweets False False)) = []
       \<and> filter touches_ledger (trace (delete_tweets w fs tweets False False)) = []
       \<and> calls (delete_tweets w fs tweets False False) = 0
       \<and> ledger_file (delete_tweets w fs tweets False False) = fs
       \<and> console (delete_tweets w fs tweets False False) =
           (if tweets = [] then [No_tweets] else [Rule, Warning (length tweets), Rule, Aborted])"
  using assms by (simp add: delete_tweets_def init_def emit_def effect_def Let_def)

theorem confirmation_gate_witness:
  "\<not> confirmed (sample_world ''DELETE it'' (\<lambda>n k. Deleted))
   \<and> trace (delete_tweets (sample_world ''DELETE it'' (\<lambda>n k. Deleted)) None
        [sample_tweet ''1'' ''hello''] False False) = [Input]
   \<and> filter is_call (trace (delete_tweets (sample_world ''DELETE it'' (\<lambda>n k. Deleted)) None
        [sample_tweet ''1'' ''hello''] False False)) = []"
proof -
  have h: "\<not> confirmed (sample_world ''DELETE it'' (\<lambda>n k. Deleted))"
    by (simp add: confirmed_def sample_world_def py_strip_def is_space_def)
  show ?thesis
    using h confirmation_gate [OF h, of None "[sample_tweet ''1'' ''hello'']"]
    by (simp add: delete_tweets_def init_def emit_def effect_def Let_def)
qed

section \<open>Outcomes of one deletion call\<close>

text \<open>
  When the run is not a dry run, the confirmation passes and some candidate is not in
  the loaded ledger, \<open>delete_tweets\<close> is the loop over those candidates from
  \<open>loop_start\<close>, followed by the final write and the summary.
\<close>

lemma loop_start_sel:
  "\<not> stopped (loop_start w fs tweets skip_confirm)"
  "batch_count (loop_start w fs tweets skip_confirm) = 0"
  "calls (loop_start w fs tweets skip_confirm) = 0"
  "log (loop_start w fs tweets skip_confirm) = ledger_entries fs"
  "appended (trace (loop_start w fs tweets skip_confirm)) = []"
  "filter is_call (trace (loop_start w fs tweets skip_confirm)) = []"
  by (simp_all add: loop_start_def Let_def emit_sel trace_emit load_log_sel)
     (simp_all add: load_log_def emit_def effect_def init_def ledger_entries_def split: option.splits)

lemma remaining_loaded:
  "log s = [] \<Longrightarrow> remaining_of tweets (load_log s) =
     filter (\<lambda>t. tweet_id t \<notin> set (ledger_ids (ledger_file s))) tweets"
  by (simp add: remaining_of_def load_log_sel ledger_ids_def)

lemma delete_tweets_loop:
  assumes "skip_confirm \<or> confirmed w"
    and "filter (\<lambda>t. tweet_id t \<notin> set (ledger_ids fs)) tweets = r" and "r \<noteq> []"
  shows "delete_tweets w fs tweets False skip_confirm =
         finish (delete_loop w (length r) 1 r (loop_start w fs tweets skip_confirm))"
proof -
  let ?s1 = "emit Rule (emit (Warning (length tweets)) (emit Rule (init fs)))"
  let ?s2 = "load_log (if skip_confirm then emit Skipping_confirmation ?s1 else effect Input ?s1)"
  have l: "log (if skip_confirm then emit Skipping_confirmation ?s1 else effect Input ?s1) = []"
    and f: "ledger_file (if skip_confirm then emit Skipping_confirmation ?s1 else effect Input ?s1) = fs"
    by (simp_all add: emit_def effect_def init_def)
  have rem: "remaining_of tweets ?s2 = r"
    using remaining_loaded [OF l, of tweets] assms(2) by (simp only: f)
  have ne: "tweets \<noteq> []"
    using assms(2,3) by auto
  have "delete_tweets w fs tweets False skip_confirm = delete_remaining w tweets ?s2"
    using assms(1) ne by (auto simp: delete_tweets_def Let_def)
  also have "\<dots> = finish (delete_loop w (length r) 1 r (loop_start w fs tweets skip_confirm))"
    using assms(3) by (simp add: delete_remaining_def loop_start_def Let_def rem)
  finally show ?thesis .
qed

text \<open>
  The first call for a tweet \<open>t\<close>, reached after the candidates \<open>pre\<close>, raises \<open>NotFound\<close>:
  the iteration makes that one call, prints the already-gone line, increments
  \<open>deleted\<close> and changes nothing else (no retry, no new ledger entry), and the run goes
  on with the candidates after \<open>t\<close>.
\<close>

lemma not_found_first_attempt:
  assumes "skip_confirm \<or> confirmed w"
    and "filter (\<lambda>t. tweet_id t \<notin> set (ledger_ids fs)) tweets = pre @ t # post"
    and "\<not> stopped (delete_loop w (length (pre @ t # post)) 1 pre (loop_start w fs tweets skip_confirm))"
    and "int_of_str w (tweet_id t) = Inr k"
    and "delete_tweet w
           (calls (delete_loop w (length (pre @ t # post)) 1 pre (loop_start w fs tweets skip_confirm))) k
           = NotFound e"
  shows "delete_tweets w fs tweets False skip_confirm =
         finish (delete_loop w (length (pre @ t # post)) (length pre + 2) post
           ((delete_loop w (length (pre @ t # post)) 1 pre (loop_start w fs tweets skip_confirm))
              \<lparr>trace := trace (delete_loop w (length (pre @ t # post)) 1 pre
                                 (loop_start w fs tweets skip_confirm)) @ [DeleteCall k],
               console := console (delete_loop w (length (pre @ t # post)) 1 pre
                                     (loop_start w fs tweets skip_confirm)) @
                          [Already_gone (length pre + 1) (length (pre @ t # post)) (tweet_id t)],
               deleted := deleted (delete_loop w (length (pre @ t # post)) 1 pre
                                     (loop_start w fs tweets skip_confirm)) + 1,
               calls := calls (delete_loop w (length (pre @ t # post)) 1 pre
                                 (loop_start w fs tweets skip_confirm)) + 1\<rparr>))"
proof -
  let ?n = "length (pre @ t # post)"
  let ?st = "loop_start w fs tweets skip_confirm"
  let ?s = "delete_loop w ?n 1 pre ?st"
  have b: "batch_count ?s < RATE_LIMIT_DELETES - 2"
    by (rule batch_loop) (simp_all add: loop_start_sel RATE_LIMIT_DELETES_def)
  have step: "process_tweet w ?n (1 + length pre) t ?s =
      ?s\<lparr>trace := trace ?s @ [DeleteCall k],
         console := console ?s @ [Already_gone (length pre + 1) ?n (tweet_id t)],
         deleted := deleted ?s + 1, calls := calls ?s + 1\<rparr>"
    using assms(3,4,5) b by (simp add: body_defs prim_defs Let_def)
  have ns: "\<not> stopped (process_tweet w ?n (1 + length pre) t ?s)"
    unfolding step using assms(3) by simp
  have run: "delete_tweets w fs tweets False skip_confirm =
             finish (delete_loop w ?n 1 (pre @ t # post) ?st)"
    using assms(1,2) by (intro delete_tweets_loop) simp_all
  have "delete_loop w ?n 1 (pre @ t # post) ?st = delete_loop w ?n (1 + length pre) (t # post) ?s"
    using assms(3) by (rule delete_loop_append)
  also have "\<dots> = delete_loop w ?n (length pre + 2) post (process_tweet w ?n (1 + length pre) t ?s)"
    using ns by (simp add: Let_def)
  finally show ?thesis
    unfolding run by (simp only: step)
qed

text \<open>
  C6. The claim asks every call that raises \<open>NotFound\<close> to count as a success. The
  handler of the first attempt (lines 319-321) does that; the retry after
  \<open>TooManyRequests\<close> (line 298) has no \<open>NotFound\<close> clause, so there the exception reaches
  \<open>except Exception\<close> (lines 315-317) and counts as a failure. With one candidate whose
  first call is rate-limited and whose retry raises \<open>NotFound\<close>, the run ends with
  \<open>deleted = 0\<close> and \<open>failed = 1\<close>; with \<open>NotFound\<close> on the first call it ends with
  \<open>deleted = 1\<close> and \<open>failed = 0\<close>.
\<close>

theorem retry_not_found_counted_as_failure:
  "filter is_call (trace (delete_tweets
        (sample_world [] (\<lambda>n k. if n = 0 then TooManyRequests ''429 Too Many Requests''
                                else NotFound ''404 Not Found'')) None
        [sample_tweet ''1'' ''a''] False True)) = [DeleteCall 1, DeleteCall 1]
   \<and> console (delete_tweets
        (sample_world [] (\<lambda>n k. if n = 0 then TooManyRequests ''429 Too Many Requests''
                                else NotFound ''404 Not Found'')) None
        [sample_tweet ''1'' ''a''] False True) =
      [Rule, Warning 1, Rule, Skipping_confirmation, Deleting_remaining 1, Rate_limited 900,
       Failed_after_retry 1 1 ''404 Not Found'', Rule, Done 0 1, Log_saved, Rule]
   \<and> deleted (delete_tweets
        (sample_world [] (\<lambda>n k. if n = 0 then TooManyRequests ''429 Too Many Requests''
                                else NotFound ''404 Not Found'')) None
        [sample_tweet ''1'' ''a''] False True) = 0
   \<and> failed (delete_tweets
        (sample_world [] (\<lambda>n k. if n = 0 then TooManyRequests ''429 Too Many Requests''
                                else NotFound ''404 Not Found'')) None
        [sample_tweet ''1'' ''a''] False True) = 1
   \<and> console (delete_tweets (sample_world [] (\<lambda>n k. NotFound ''404 Not Found'')) None
        [sample_tweet ''1'' ''a''] False True) =
      [Rule, Warning 1, Rule, Skipping_confirmation, Deleting_remaining 1,
       Already_gone 1 1 ''1'', Rule, Done 1 0, Log_saved, Rule]"
  by (simp add: run_defs sample_defs)





text \<open>
  After \<open>TooManyRequests\<close> the handler writes the ledger, sleeps for the window plus five
  seconds and makes exactly one more call for the same tweet.
\<close>

lemma rate_limited_retries_once:
  assumes "int_of_str w (tweet_id t) = Inr k"
    and "delete_tweet w (calls s) k = TooManyRequests e"
  shows "\<exists>rest. trace (try_delete w total_n i t s) =
           trace s @ [DeleteCall k, LedgerWrite (log s), Sleep (RATE_LIMIT_WINDOW + 5), DeleteCall k] @ rest
         \<and> filter is_call rest = []"
  using assms unfolding try_delete_def retry_def attempt_def prim_defs
  by (auto simp: Let_def split: outcome.splits)

text \<open>
  C5. The retry's handler (lines 307-317) aborts only on \<open>Forbidden\<close> whose text holds
  \<open>402\<close> or \<open>credits\<close>; any other exception counts as a plain failure. A retry that
  fails with HTTP 402, which tweepy raises as \<open>HTTPException\<close> and which the handlers of
  the first attempt (lines 323-341) treat as exhaustion, does not stop the run: the
  call for the next tweet is made.
\<close>

theorem retry_exhaustion_not_detected:
  "exhausted ''402 Payment Required''
   \<and> trace (delete_tweets (sample_world []
        (\<lambda>n k. if n = 0 then TooManyRequests ''429 Too Many Requests''
               else if n = 1 then OtherError ''402 Payment Required'' else Deleted))
        None [sample_tweet ''1'' ''a'', sample_tweet ''2'' ''b''] False True) =
     [LedgerProbe, DeleteCall 1, LedgerWrite [], Sleep 905, DeleteCall 1, DeleteCall 2,
      LogAppend \<lparr>entry_id = ''2'', entry_text = ''b'', entry_created_at = None,
                 deleted_at = ''2026-01-01T00:00:00''\<rparr>,
      LedgerWrite [\<lparr>entry_id = ''2'', entry_text = ''b'', entry_created_at = None,
                 deleted_at = ''2026-01-01T00:00:00''\<rparr>]]"
  by (simp add: exhausted_def delete_tweets_def init_def Let_def sample_world_def
      load_log_def delete_remaining_def remaining_of_def finish_def sample_tweet_def
      sample_int_def body_defs prim_defs new_entry_def RATE_LIMIT_DELETES_def RATE_LIMIT_WINDOW_def)

section \<open>Idempotence across runs\<close>

lemma remaining_nil:
  "list_all (\<lambda>t. tweet_id t \<in> set (map entry_id (log s))) tweets \<Longrightarrow> remaining_of tweets s = []"
  by (induction tweets) (auto simp: remaining_of_def)

lemma no_calls_when_all_logged:
  assumes "list_all (\<lambda>t. tweet_id t \<in> set (ledger_ids fs)) tweets"
  shows "filter is_call (trace (delete_tweets w fs tweets dry_run skip_confirm)) = []
       \<and> calls (delete_tweets w fs tweets dry_run skip_confirm) = 0
       \<and> ledger_file (delete_tweets w fs tweets dry_run skip_confirm) = fs"
proof -
  have run: "filter is_call (trace (delete_remaining w tweets (load_log s))) = []
       \<and> calls (delete_remaining w tweets (load_log s)) = 0
       \<and> ledger_file (delete_remaining w tweets (load_log s)) = fs"
    if "log s = []" "ledger_file s = fs" "filter is_call (trace s) = []" "calls s = 0" for s
  proof -
    have "log (load_log s) = ledger_entries fs"
      using that by (simp add: load_log_sel)
    then have "remaining_of tweets (load_log s) = []"
      using assms by (intro remaining_nil) (simp add: ledger_ids_def)
    moreover have "filter is_call (trace (load_log s)) = []"
      using that(3) by (simp add: load_log_def effect_def split: option.splits)
    ultimately show ?thesis
      using that by (simp add: delete_remaining_def Let_def emit_sel trace_emit load_log_sel)
  qed
  show ?thesis
  proof (rule delete_tweets_cases [where P = "\<lambda>r. filter is_call (trace r) = [] \<and> calls r = 0
       \<and> ledger_file r = fs"])
    show "filter is_call (trace (emit No_tweets (init fs))) = [] \<and>
          calls (emit No_tweets (init fs)) = 0 \<and> ledger_file (emit No_tweets (init fs)) = fs"
      by (simp add: emit_def init_def)
    show "filter is_call (trace ((init fs)\<lparr>console := dry_run_report tweets\<rparr>)) = [] \<and>
          calls ((init fs)\<lparr>console := dry_run_report tweets\<rparr>) = 0 \<and>
          ledger_file ((init fs)\<lparr>console := dry_run_report tweets\<rparr>) = fs"
      by (simp add: init_def)
    show "filter is_call (trace (emit Aborted (effect Input
             (emit Rule (emit (Warning (length tweets)) (emit Rule (init fs))))))) = [] \<and>
          calls (emit Aborted (effect Input
             (emit Rule (emit (Warning (length tweets)) (emit Rule (init fs)))))) = 0 \<and>
          ledger_file (emit Aborted (effect Input
             (emit Rule (emit (Warning (length tweets)) (emit Rule (init fs)))))) = fs"
      by (simp add: emit_def effect_def init_def)
  qed (rule run; simp add: start_sel)+
qed

lemma success_process:
  assumes "delete_tweet w = (\<lambda>n k. Deleted)" and "\<not> isl (int_of_str w (tweet_id t))"
    and "\<not> stopped s"
  shows "\<not> stopped (process_tweet w total_n i t s)
       \<and> set (map entry_id (log (process_tweet w total_n i t s))) =
           insert (tweet_id t) (set (map entry_id (log s)))"
  using assms unfolding body_defs prim_defs new_entry_def
  by (auto simp: Let_def split: sum.splits)

lemma success_loop:
  assumes "delete_tweet w = (\<lambda>n k. Deleted)"
  shows "list_all (\<lambda>t. \<not> isl (int_of_str w (tweet_id t))) ts \<Longrightarrow> \<not> stopped s \<Longrightarrow>
         set (map entry_id (log (delete_loop w total_n i ts s))) =
           set (map tweet_id ts) \<union> set (map entry_id (log s))"
proof (induction ts arbitrary: i s)
  case Nil
  then show ?case by simp
next
  case (Cons t ts)
  from Cons.prems have p: "\<not> isl (int_of_str w (tweet_id t))"
    and q: "list_all (\<lambda>t. \<not> isl (int_of_str w (tweet_id t))) ts"
    by simp_all
  from success_process [OF assms p Cons.prems(2), of total_n i]
  have n: "\<not> stopped (process_tweet w total_n i t s)"
    and e: "set (map entry_id (log (process_tweet w total_n i t s))) =
           insert (tweet_id t) (set (map entry_id (log s)))"
    by blast+
  from Cons.IH [OF q n, of "i + 1"] n e show ?case
    by (simp add: Let_def del: set_map)
qed

lemma first_run_ledger:
  assumes "delete_tweet w = (\<lambda>n k. Deleted)"
    and "list_all (\<lambda>t. \<not> isl (int_of_str w (tweet_id t))) tweets"
    and "skip_confirm \<or> confirmed w"
  shows "list_all (\<lambda>t. tweet_id t \<in> set (ledger_ids (ledger_file
           (delete_tweets w fs tweets False skip_confirm)))) tweets"
proof -
  have run: "list_all (\<lambda>t. tweet_id t \<in> set (ledger_ids (ledger_file
           (delete_remaining w tweets (load_log s))))) tweets"
    if "log s = []" "\<not> stopped s" for s
  proof -
    let ?s = "load_log s"
    let ?r = "remaining_of tweets ?s"
    have a: "ledger_entries (ledger_file ?s) = log ?s" and ns: "\<not> stopped ?s"
      using that by (simp_all add: load_log_sel)
    have rs: "list_all (\<lambda>t. \<not> isl (int_of_str w (tweet_id t))) ?r"
      using assms(2) by (simp add: remaining_of_def list_all_iff)
    have cover: "set (map tweet_id tweets) \<subseteq> set (map tweet_id ?r) \<union> set (map entry_id (log ?s))"
      by (auto simp: remaining_of_def)
    show ?thesis
    proof (cases "?r = []")
      case True
      then have "ledger_file (delete_remaining w tweets ?s) = ledger_file ?s"
        by (simp add: delete_remaining_def Let_def emit_sel)
      with cover True a show ?thesis
        by (auto simp: ledger_ids_def list_all_iff)
    next
      case False
      have l: "set (map entry_id (log (delete_loop w n i ?r s'))) =
               set (map tweet_id ?r) \<union> set (map entry_id (log ?s))"
        if "log s' = log ?s" "\<not> stopped s'" for n i s'
        using success_loop [OF assms(1) rs that(2), of n i] that(1) by simp
      have f: "ledger_file (finish s') = Some (log s')" for s'
        by (simp add: finish_def prim_defs)
      have "set (ledger_ids (ledger_file (delete_remaining w tweets ?s))) =
            set (map tweet_id ?r) \<union> set (map entry_id (log ?s))"
        using False ns
        by (simp add: delete_remaining_def Let_def f ledger_ids_def ledger_entries_def l emit_sel
            del: set_map)
      with cover show ?thesis
        by (auto simp: list_all_iff)
    qed
  qed
  have s: "\<not> stopped (emit Skipping_confirmation (emit Rule (emit (Warning n) (emit Rule (init fs)))))"
    "\<not> stopped (effect Input (emit Rule (emit (Warning n) (emit Rule (init fs)))))" for n
    by (simp_all add: emit_def effect_def init_def)
  show ?thesis
    using assms(3) run [OF start_sel(1) s(1)] run [OF start_sel(5) s(2)]
    by (auto simp: delete_tweets_def Let_def)
qed

text \<open>
  C1. Whenever every candidate id is in the ledger file at the start of
  \<open>delete_tweets\<close>, the run makes no \<open>delete_tweet\<close> call and leaves the ledger file as it
  was, whatever the flags and the environment. In particular: after a first run in
  which the confirmation passed, every \<open>int(tweet_id)\<close> succeeded and every call
  returned, the file left by that run holds every candidate id, so a second run on
  the same candidates makes no call and leaves that file unchanged.
\<close>

theorem idempotence:
  "(list_all (\<lambda>t. tweet_id t \<in> set (ledger_ids fs)) tweets \<longrightarrow>
      filter is_call (trace (delete_tweets w fs tweets dry_run skip_confirm)) = []
      \<and> calls (delete_tweets w fs tweets dry_run skip_confirm) = 0
      \<and> ledger_file (delete_tweets w fs tweets dry_run skip_confirm) = fs)
   \<and> (delete_tweet w1 = (\<lambda>n k. Deleted)
        \<and> list_all (\<lambda>t. \<not> isl (int_of_str w1 (tweet_id t))) tweets
        \<and> (skip1 \<or> confirmed w1) \<longrightarrow>
      filter is_call (trace (delete_tweets w2
          (ledger_file (delete_tweets w1 fs tweets False skip1)) tweets dry_run skip_confirm)) = []
      \<and> calls (delete_tweets w2
          (ledger_file (delete_tweets w1 fs tweets False skip1)) tweets dry_run skip_confirm) = 0
      \<and> ledger_file (delete_tweets w2
          (ledger_file (delete_tweets w1 fs tweets False skip1)) tweets dry_run skip_confirm) =
          ledger_file (delete_tweets w1 fs tweets False skip1))"
  using no_calls_when_all_logged first_run_ledger by blast

theorem idempotence_witness:
  "list_all (\<lambda>t. tweet_id t \<in> set (ledger_ids (Some [\<lparr>entry_id = ''1'', entry_text = ''a'',
        entry_created_at = None, deleted_at = ''2025-12-31T00:00:00''\<rparr>]))) [sample_tweet ''1'' ''a'']
   \<and> trace (delete_tweets (sample_world [] (\<lambda>n k. Deleted))
        (Some [\<lparr>entry_id = ''1'', entry_text = ''a'', entry_created_at = None,
                deleted_at = ''2025-12-31T00:00:00''\<rparr>])
        [sample_tweet ''1'' ''a''] False True) = [LedgerProbe, LedgerRead]
   \<and> delete_tweet (sample_world [] (\<lambda>n k. Deleted)) = (\<lambda>n k. Deleted)
   \<and> list_all (\<lambda>t. \<not> isl (int_of_str (sample_world [] (\<lambda>n k. Deleted)) (tweet_id t)))
        [sample_tweet ''1'' ''a'', sample_tweet ''2'' ''b'']
   \<and> ledger_ids (ledger_file (delete_tweets (sample_world [] (\<lambda>n k. Deleted)) None
        [sample_tweet ''1'' ''a'', sample_tweet ''2'' ''b''] False True)) = [''1'', ''2'']
   \<and> trace (delete_tweets (sample_world [] (\<lambda>n k. Deleted))
        (ledger_file (delete_tweets (sample_world [] (\<lambda>n k. Deleted)) None
           [sample_tweet ''1'' ''a'', sample_tweet ''2'' ''b''] False True))
        [sample_tweet ''1'' ''a'', sample_tweet ''2'' ''b''] False True) = [LedgerProbe, LedgerRead]"
  using idempotence [of "Some [\<lparr>entry_id = ''1'', entry_text = ''a'', entry_created_at = None,
        deleted_at = ''2025-12-31T00:00:00''\<rparr>]" "[sample_tweet ''1'' ''a'']"
        "sample_world [] (\<lambda>n k. Deleted)" False True]
    idempotence [of None "[sample_tweet ''1'' ''a'', sample_tweet ''2'' ''b'']"
        "sample_world [] (\<lambda>n k. Deleted)" False True
        "sample_world [] (\<lambda>n k. Deleted)" True]
  by (simp add: run_defs sample_defs ledger_ids_def ledger_entries_def)

section \<open>Uniqueness of the ids in the ledger\<close>

text \<open>One iteration appends at most one entry, and its id is the tweet's.\<close>

lemma log_step:
  "log (process_tweet w total_n i t s) = log s \<or>
   (\<exists>d. log (process_tweet w total_n i t s) =
      log s @ [\<lparr>entry_id = tweet_id t, entry_text = tweet_text t,
                 entry_created_at = created_at t, deleted_at = d\<rparr>])"
  unfolding body_defs prim_defs new_entry_def
  by (auto simp: Let_def split: sum.splits outcome.splits prod.splits)

lemma ids_loop:
  "distinct (map entry_id (log s) @ map tweet_id ts) \<Longrightarrow>
   distinct (map entry_id (log (delete_loop w total_n i ts s)))
   \<and> set (map entry_id (log (delete_loop w total_n i ts s))) \<subseteq>
       set (map entry_id (log s)) \<union> set (map tweet_id ts)
   \<and> prefix (log s) (log (delete_loop w total_n i ts s))"
proof (induction ts arbitrary: i s)
  case Nil
  then show ?case by simp
next
  case (Cons t ts)
  let ?s1 = "process_tweet w total_n i t s"
  from log_step [of w total_n i t s]
  have d: "distinct (map entry_id (log ?s1) @ map tweet_id ts)"
    and sub: "set (map entry_id (log ?s1)) \<subseteq> set (map entry_id (log s)) \<union> {tweet_id t}"
    and pre: "prefix (log s) (log ?s1)"
    using Cons.prems by (fastforce simp: disjoint_iff)+
  show ?case
  proof (cases "stopped ?s1")
    case True
    then have r: "delete_loop w total_n i (t # ts) s = ?s1"
      by (simp add: Let_def)
    from d have "distinct (map entry_id (log ?s1))" by simp
    moreover from sub have "set (map entry_id (log ?s1)) \<subseteq>
        set (map entry_id (log s)) \<union> set (map tweet_id (t # ts))"
      by (simp del: set_map) blast
    ultimately show ?thesis
      unfolding r using pre by blast
  next
    case False
    then have r: "delete_loop w total_n i (t # ts) s = delete_loop w total_n (i + 1) ts ?s1"
      by (simp add: Let_def)
    from Cons.IH [OF d, of "i + 1"]
    have i1: "distinct (map entry_id (log (delete_loop w total_n (i + 1) ts ?s1)))"
      and i2: "set (map entry_id (log (delete_loop w total_n (i + 1) ts ?s1))) \<subseteq>
           set (map entry_id (log ?s1)) \<union> set (map tweet_id ts)"
      and i3: "prefix (log ?s1) (log (delete_loop w total_n (i + 1) ts ?s1))"
      by blast+
    from i2 sub have "set (map entry_id (log (delete_loop w total_n (i + 1) ts ?s1))) \<subseteq>
        set (map entry_id (log s)) \<union> set (map tweet_id (t # ts))"
      by (simp del: set_map) blast
    moreover from pre i3 have "prefix (log s) (log (delete_loop w total_n (i + 1) ts ?s1))"
      by (rule prefix_order.trans)
    ultimately show ?thesis
      unfolding r using i1 by blast
  qed
qed

lemma ledger_remaining:
  assumes "ledger_entries (ledger_file s) = log s"
    and "distinct (map entry_id (log s))"
    and "distinct (map tweet_id tweets)"
  shows "distinct (ledger_ids (ledger_file (delete_remaining w tweets s)))
       \<and> prefix (log s) (ledger_entries (ledger_file (delete_remaining w tweets s)))"
proof -
  let ?r = "remaining_of tweets s"
  have dr: "distinct (map entry_id (log s) @ map tweet_id ?r)"
    using assms(2,3) by (auto simp: remaining_of_def distinct_map_filter) (metis imageI)
  have l: "distinct (map entry_id (log (delete_loop w n i ?r s')))
         \<and> prefix (log s) (log (delete_loop w n i ?r s'))" if "log s' = log s" for n i s'
    using ids_loop [of s' ?r w n i] dr that by simp
  have f: "ledger_file (finish s') = Some (log s')" for s'
    by (simp add: finish_def prim_defs)
  show ?thesis
    unfolding delete_remaining_def Let_def
    using assms by (auto simp: ledger_ids_def ledger_entries_def f l emit_sel)
qed

text \<open>
  C8 as stated: two candidates with the same id never both produce a ledger entry.
  Line 262 filters the candidates against the ids loaded from the file only; the set
  is not updated in the loop, so when the list holds the id twice and both calls
  return, the ledger ends with two entries of that id.
\<close>

theorem ledger_ids_unique_counterexample:
  "distinct (ledger_ids None)
   \<and> ledger_ids (ledger_file (delete_tweets (sample_world [] (\<lambda>n k. Deleted)) None
        [sample_tweet ''1'' ''first text'', sample_tweet ''1'' ''second text''] False True))
      = [''1'', ''1'']"
  by (simp add: run_defs sample_defs ledger_ids_def ledger_entries_def)

text \<open>
  C8, amended. When the candidate ids are pairwise distinct and each id appears at
  most once in the ledger file before the run, each id appears at most once in the
  ledger file after the run; and the file after the run extends the file before it
  (entries are appended only).
\<close>

theorem ledger_ids_unique:
  assumes "distinct (map tweet_id tweets)" and "distinct (ledger_ids fs)"
  shows "distinct (ledger_ids (ledger_file (delete_tweets w fs tweets dry_run skip_confirm)))
       \<and> prefix (ledger_entries fs)
            (ledger_entries (ledger_file (delete_tweets w fs tweets dry_run skip_confirm)))"
proof -
  have run: "distinct (ledger_ids (ledger_file (delete_remaining w tweets (load_log s))))
       \<and> prefix (ledger_entries fs)
            (ledger_entries (ledger_file (delete_remaining w tweets (load_log s))))"
    if "log s = []" "ledger_file s = fs" for s
  proof -
    have a: "ledger_entries (ledger_file (load_log s)) = log (load_log s)"
      and b: "log (load_log s) = ledger_entries fs"
      using that by (simp_all add: load_log_sel)
    have c: "distinct (map entry_id (log (load_log s)))"
      using assms(2) by (simp add: b ledger_ids_def)
    from ledger_remaining [OF a c assms(1), of w] show ?thesis
      by (simp add: b)
  qed
  show ?thesis
  proof (rule delete_tweets_cases [where P = "\<lambda>r. distinct (ledger_ids (ledger_file r))
       \<and> prefix (ledger_entries fs) (ledger_entries (ledger_file r))"])
    show "distinct (ledger_ids (ledger_file (emit No_tweets (init fs)))) \<and>
          prefix (ledger_entries fs) (ledger_entries (ledger_file (emit No_tweets (init fs))))"
      using assms(2) by (simp add: emit_def init_def)
    show "distinct (ledger_ids (ledger_file ((init fs)\<lparr>console := dry_run_report tweets\<rparr>))) \<and>
          prefix (ledger_entries fs)
            (ledger_entries (ledger_file ((init fs)\<lparr>console := dry_run_report tweets\<rparr>)))"
      using assms(2) by (simp add: init_def)
    show "distinct (ledger_ids (ledger_file (emit Aborted (effect Input
             (emit Rule (emit (Warning (length tweets)) (emit Rule (init fs)))))))) \<and>
          prefix (ledger_entries fs) (ledger_entries (ledger_file (emit Aborted (effect Input
             (emit Rule (emit (Warning (length tweets)) (emit Rule (init fs))))))))"
      using assms(2) by (simp add: emit_def effect_def init_def)
  qed (rule run; simp add: start_sel)+
qed

theorem ledger_ids_unique_witness:
  "distinct (map tweet_id [sample_tweet ''1'' ''a'', sample_tweet ''2'' ''b''])
   \<and> distinct (ledger_ids (Some [\<lparr>entry_id = ''1'', entry_text = ''a'', entry_created_at = None,
                                   deleted_at = ''2025-12-31T00:00:00''\<rparr>]))
   \<and> ledger_ids (ledger_file (delete_tweets (sample_world [] (\<lambda>n k. Deleted))
        (Some [\<lparr>entry_id = ''1'', entry_text = ''a'', entry_created_at = None,
                deleted_at = ''2025-12-31T00:00:00''\<rparr>])
        [sample_tweet ''1'' ''a'', sample_tweet ''2'' ''b''] False True)) = [''1'', ''2'']"
proof -
  have h1: "distinct (map tweet_id [sample_tweet ''1'' ''a'', sample_tweet ''2'' ''b''])"
    by (simp add: sample_tweet_def)
  have h2: "distinct (ledger_ids (Some [\<lparr>entry_id = ''1'', entry_text = ''a'', entry_created_at = None,
                                   deleted_at = ''2025-12-31T00:00:00''\<rparr>]))"
    by (simp add: ledger_ids_def ledger_entries_def)
  from ledger_ids_unique [OF h1 h2, of "sample_world [] (\<lambda>n k. Deleted)" False True]
  show ?thesis
    by (simp add: run_defs sample_defs ledger_ids_def ledger_entries_def)
qed

section \<open>Durability of the ledger\<close>

lemma durable_replay_append:
  "durable_replay strict g (xs @ ys) =
   (case durable_replay strict g xs of None \<Rightarrow> None | Some g1 \<Rightarrow> durable_replay strict g1 ys)"
  by (induction xs arbitrary: g) (auto split: option.splits)

lemma durable_inv_emit: "durable_inv fs ld (emit l s) = durable_inv fs ld s"
  by (simp add: durable_inv_def emit_def)

lemma durable_inv_process:
  "durable_inv fs True s \<Longrightarrow> durable_inv fs True (process_tweet w total_n i t s)"
  unfolding durable_inv_def body_defs prim_defs
  by (auto simp: durable_replay_append Let_def split: sum.splits outcome.splits prod.splits)

lemma durable_inv_loop:
  "durable_inv fs True s \<Longrightarrow> durable_inv fs True (delete_loop w total_n i ts s)"
  by (induction ts arbitrary: i s) (auto simp: Let_def durable_inv_process)

lemma durable_inv_load:
  "durable_inv fs False s \<Longrightarrow> log s = [] \<Longrightarrow>
   durable_inv fs True (load_log s) \<and> ledger_entries (ledger_file (load_log s)) = log (load_log s)"
  by (auto simp: durable_inv_def load_log_def effect_def durable_replay_append ledger_entries_def
      split: option.splits)

lemma durable_inv_finish:
  "durable_inv fs True s \<Longrightarrow>
   durable_inv fs True (finish s) \<and> ledger_entries (ledger_file (finish s)) = log (finish s)"
  by (simp add: durable_inv_def finish_def prim_defs durable_replay_append ledger_entries_def)

lemma durable_inv_remaining:
  assumes "durable_inv fs True s" and "ledger_entries (ledger_file s) = log s"
  shows "durable_inv fs True (delete_remaining w tweets s) \<and>
         ledger_entries (ledger_file (delete_remaining w tweets s)) = log (delete_remaining w tweets s)"
proof -
  have e: "\<And>l. durable_inv fs True (emit l s)" "\<And>l l'. durable_inv fs True (emit l (emit l' s))"
    using assms(1) by (simp_all add: durable_inv_emit)
  show ?thesis
    unfolding delete_remaining_def Let_def
    using assms e
    by (auto simp: durable_inv_emit emit_def intro!: durable_inv_finish [THEN conjunct1]
        durable_inv_finish [THEN conjunct2] durable_inv_loop)
qed

lemma durable_inv_trace:
  "durable_inv fs ld s \<Longrightarrow> (if ld then ledger_entries (ledger_file s) = log s else True) \<Longrightarrow>
   durable_trace False fs (trace s)"
  by (simp add: durable_inv_def durable_trace_def)

lemma durable_inv_init: "durable_inv fs False (init fs)"
  by (simp add: durable_inv_def init_def)

text \<open>
  C7 as stated: the ledger file is written after each successful deletion, before the
  next deletion call begins. With two tweets that are both deleted, the second call
  starts while the entry of the first is in memory only: the source writes the file
  at the pauses, on an abort and after the loop, not after each success.
\<close>

theorem ledger_durability_counterexample:
  "\<not> durable_trace True None
      (trace (delete_tweets (sample_world [] (\<lambda>n k. Deleted)) None
         [sample_tweet ''1'' ''a'', sample_tweet ''2'' ''b''] False True))"
  by (simp add: durable_trace_def run_defs sample_defs ledger_entries_def)

text \<open>
  C7, amended. In every run the ledger file is probed, and read when it exists, before
  any \<open>delete_tweet\<close> call; every write stores the whole in-memory log; every sleep
  (the wait after \<open>TooManyRequests\<close> and the proactive pause) starts with the file equal
  to the in-memory log; and when the function returns after the load (also after an
  abort on exhaustion) the file equals the in-memory log. Between two such points the
  entries of successful deletions are in memory only.
\<close>

theorem ledger_durability:
  "durable_trace False fs (trace (delete_tweets w fs tweets dry_run skip_confirm))"
proof -
  let ?s1 = "emit Rule (emit (Warning (length tweets)) (emit Rule (init fs)))"
  have s1: "durable_inv fs False ?s1" "log ?s1 = []"
    by (simp_all add: durable_inv_emit durable_inv_init) (simp add: emit_def init_def)
  have a: "durable_inv fs False (emit Skipping_confirmation ?s1)" "log (emit Skipping_confirmation ?s1) = []"
    using s1 by (simp_all add: durable_inv_emit) (simp add: emit_def)
  have b: "durable_inv fs False (effect Input ?s1)" "log (effect Input ?s1) = []"
    using s1 by (simp_all add: durable_inv_def effect_def durable_replay_append)
  have run: "\<And>s. durable_inv fs False s \<Longrightarrow> log s = [] \<Longrightarrow>
      durable_trace False fs (trace (delete_remaining w tweets (load_log s)))"
  proof -
    fix s assume "durable_inv fs False s" "log s = []"
    from durable_inv_load [OF this]
    have "durable_inv fs True (load_log s)" "ledger_entries (ledger_file (load_log s)) = log (load_log s)"
      by simp_all
    from durable_inv_remaining [OF this, of w tweets]
    show "durable_trace False fs (trace (delete_remaining w tweets (load_log s)))"
      by (auto intro: durable_inv_trace)
  qed
  have c: "durable_trace False fs (trace (emit Aborted (effect Input ?s1)))"
    using b(1) by (auto intro!: durable_inv_trace [where ld = False] simp: durable_inv_emit)
  have d: "durable_trace False fs (trace (emit No_tweets (init fs)))"
    "durable_trace False fs (trace ((init fs)\<lparr>console := dry_run_report tweets\<rparr>))"
    by (simp_all add: durable_trace_def emit_def init_def)
  show ?thesis
    unfolding delete_tweets_def Let_def
    using run [OF a] run [OF b] c d by simp
qed

section \<open>The proactive pause\<close>

lemma paced_replay_append:
  "paced_replay b p (xs @ ys) =
   (case paced_replay b p xs of None \<Rightarrow> None | Some p1 \<Rightarrow> paced_replay b p1 ys)"
  by (induction xs arbitrary: p) (auto split: option.splits)

lemma paced_inv_emit: "paced_inv (emit l s) = paced_inv s"
  by (simp add: paced_inv_def emit_def)

lemma paced_inv_process:
  "paced_inv s \<Longrightarrow> batch_count s < RATE_LIMIT_DELETES - 2 \<Longrightarrow>
   paced_inv (process_tweet w total_n i t s)"
  unfolding paced_inv_def body_defs prim_defs
  by (auto simp: paced_replay_append Let_def RATE_LIMIT_DELETES_def RATE_LIMIT_WINDOW_def
      split: sum.splits outcome.splits prod.splits)

lemma paced_inv_loop:
  "paced_inv s \<Longrightarrow> \<not> stopped s \<Longrightarrow> batch_count s < RATE_LIMIT_DELETES - 2 \<Longrightarrow>
   paced_inv (delete_loop w total_n i ts s)"
proof (induction ts arbitrary: i s)
  case Nil
  then show ?case by simp
next
  case (Cons t ts)
  then show ?case
    by (auto simp: Let_def intro: paced_inv_process batch_process)
qed

lemma paced_inv_write: "paced_inv s \<Longrightarrow> paced_inv (write_log s)"
  by (auto simp: paced_inv_def write_log_def effect_def paced_replay_append)

lemma paced_inv_trace:
  "paced_inv s \<Longrightarrow> batch_count s < RATE_LIMIT_DELETES - 2 \<Longrightarrow> paced_trace False (trace s)"
  by (auto simp: paced_inv_def paced_trace_def)

lemma paced_remaining:
  assumes "paced_inv s" and "\<not> stopped s" and "batch_count s < RATE_LIMIT_DELETES - 2"
  shows "paced_trace False (trace (delete_remaining w tweets s))"
proof -
  have "\<And>s'. paced_inv s' \<Longrightarrow> \<not> stopped s' \<Longrightarrow> batch_count s' < RATE_LIMIT_DELETES - 2 \<Longrightarrow>
      paced_trace False (trace (finish (delete_loop w n i ts s')))" for n i ts
  proof -
    fix s' assume h: "paced_inv s'" "\<not> stopped s'" "batch_count s' < RATE_LIMIT_DELETES - 2"
    let ?r = "delete_loop w n i ts s'"
    have "paced_inv (write_log ?r)" "batch_count (write_log ?r) < RATE_LIMIT_DELETES - 2"
      using paced_inv_loop [OF h] batch_loop [OF h(2,3)]
      by (simp_all add: paced_inv_write) (simp add: prim_defs)
    then have "paced_trace False (trace (write_log ?r))"
      by (rule paced_inv_trace)
    then show "paced_trace False (trace (finish ?r))"
      by (simp add: finish_def emit_def)
  qed
  note fin = this
  have t: "paced_trace False (trace s)"
    using assms(1,3) by (rule paced_inv_trace)
  have e: "\<And>l s'. paced_inv s' \<Longrightarrow> \<not> stopped s' \<Longrightarrow> batch_count s' < RATE_LIMIT_DELETES - 2 \<Longrightarrow>
      paced_inv (emit l s') \<and> \<not> stopped (emit l s') \<and> batch_count (emit l s') < RATE_LIMIT_DELETES - 2"
    by (simp add: paced_inv_emit) (simp add: emit_def)
  show ?thesis
    unfolding delete_remaining_def Let_def
    using t assms e
    by (auto simp: trace_emit paced_inv_emit intro!: fin)
qed

lemma paced_inv_load:
  "paced_inv s \<Longrightarrow> paced_inv (load_log s) \<and> batch_count (load_log s) = batch_count s
     \<and> stopped (load_log s) = stopped s"
  by (auto simp: paced_inv_def load_log_def effect_def paced_replay_append split: option.splits
      intro: exI [where x = False])

text \<open>
  C10 as stated: the counter tracks \<open>delete_tweet\<close> calls, so no more than
  \<open>RATE_LIMIT_DELETES - 2\<close> calls are made between two pauses. \<open>batch_count\<close> is
  incremented on lines 281 and 300 only, after a call that returned: with 49
  candidates whose calls all raise \<open>NotFound\<close>, 49 calls are made and no pause.
\<close>

theorem proactive_pacing_counterexample:
  "\<not> paced_trace True
      (trace (delete_tweets (sample_world [] (\<lambda>n k. NotFound ''404 Not Found'')) None
         forty_nine False True))"
  by code_simp

text \<open>
  C10, amended. \<open>batch_count\<close> counts the calls that returned (the entries appended)
  since the last sleep. A \<open>delete_tweet\<close> call is made only while fewer than
  \<open>RATE_LIMIT_DELETES - 2\<close> entries have been appended since the last sleep; every
  sleep lasts \<open>RATE_LIMIT_WINDOW + 5\<close> seconds, comes right after a write of the ledger
  and resets the count; and the run never ends with the count at the bound. So at
  most \<open>RATE_LIMIT_DELETES - 2\<close> successful deletions lie between two pauses.
\<close>

theorem proactive_pacing:
  "paced_trace False (trace (delete_tweets w fs tweets dry_run skip_confirm))"
proof -
  let ?s1 = "emit Rule (emit (Warning (length tweets)) (emit Rule (init fs)))"
  have i: "paced_inv (init fs)" "\<not> stopped (init fs)" "batch_count (init fs) = 0"
    by (simp_all add: paced_inv_def init_def)
  have s1: "paced_inv ?s1" "\<not> stopped ?s1" "batch_count ?s1 = 0"
    using i by (simp_all add: paced_inv_emit) (simp_all add: emit_def)
  have a: "paced_inv (emit Skipping_confirmation ?s1)" "\<not> stopped (emit Skipping_confirmation ?s1)"
    "batch_count (emit Skipping_confirmation ?s1) = 0"
    using s1 by (simp_all add: paced_inv_emit) (simp_all add: emit_def)
  have b: "paced_inv (effect Input ?s1)" "\<not> stopped (effect Input ?s1)"
    "batch_count (effect Input ?s1) = 0"
    using s1 by (auto simp: paced_inv_def effect_def paced_replay_append)
  have run: "\<And>s. paced_inv s \<Longrightarrow> \<not> stopped s \<Longrightarrow> batch_count s = 0 \<Longrightarrow>
      paced_trace False (trace (delete_remaining w tweets (load_log s)))"
  proof -
    fix s assume h: "paced_inv s" "\<not> stopped s" "batch_count s = 0"
    from paced_inv_load [OF h(1)] h(2,3)
    have "paced_inv (load_log s)" "\<not> stopped (load_log s)"
      "batch_count (load_log s) < RATE_LIMIT_DELETES - 2"
      by (simp_all add: RATE_LIMIT_DELETES_def)
    then show "paced_trace False (trace (delete_remaining w tweets (load_log s)))"
      by (rule paced_remaining)
  qed
  have c: "paced_trace False (trace (emit Aborted (effect Input ?s1)))"
    using b by (auto intro!: paced_inv_trace simp: paced_inv_emit emit_def [of Aborted] RATE_LIMIT_DELETES_def)
  have d: "paced_trace False (trace (emit No_tweets (init fs)))"
    "paced_trace False (trace ((init fs)\<lparr>console := dry_run_report tweets\<rparr>))"
    by (simp_all add: paced_trace_def emit_def init_def RATE_LIMIT_DELETES_def)
  show ?thesis
    unfolding delete_tweets_def Let_def
    using run [OF a] run [OF b] c d by simp
qed

end
